theory Spec2Isabelle
  imports Main "HOL-Library.Sublist"
begin

section \<open>Tree values\<close>

text \<open>
  The utilities of \<^verbatim>\<open>app.js\<close> work on the values that \<^verbatim>\<open>JSON.parse\<close> returns: null,
  booleans, numbers, strings, arrays and plain objects.

  \<^item> Numbers are kept abstract (type parameter \<open>'n\<close>): the code only compares them with
    \<^verbatim>\<open>===\<close> and turns them into text, and the text of a number is a parameter of the
    functions that print one.
  \<^item> Arrays and objects are JavaScript objects and have an identity, which \<^verbatim>\<open>===\<close>
    compares; it is the \<open>ref\<close> field. Two containers with the same \<open>ref\<close> are the same
    object.
  \<^item> The member list of an object is the list \<^verbatim>\<open>Object.entries\<close> returns, in that order;
    \<^verbatim>\<open>Object.keys\<close> is its list of keys. The keys of an object are pairwise different
    (\<open>wf_json\<close>).
\<close>

type_synonym ref = nat

datatype 'n json =
    JNull
  | JBool bool
  | JNum 'n
  | JStr string
  | JArr ref "'n json list"
  | JObj ref "(string \<times> 'n json) list"

definition Object_keys :: "(string \<times> 'n json) list \<Rightarrow> string list" where
  "Object_keys ps = map fst ps"

fun wf_json :: "'n json \<Rightarrow> bool" where
  "wf_json (JArr r xs) = list_all wf_json xs"
| "wf_json (JObj r ps) = (distinct (map fst ps) \<and> list_all (\<lambda>kv. wf_json (snd kv)) ps)"
| "wf_json _ = True"

fun is_List :: "'n json \<Rightarrow> bool" where
  "is_List (JArr r xs) = True"
| "is_List _ = False"

fun is_Object :: "'n json \<Rightarrow> bool" where
  "is_Object (JObj r ps) = True"
| "is_Object _ = False"


section \<open>Statistics: \<^verbatim>\<open>getJSONStats\<close>\<close>

text \<open>
  The five counters of \<^verbatim>\<open>getJSONStats\<close> are the local variables that the inner function
  \<^verbatim>\<open>traverse\<close> updates; here they are a record that \<open>traverse\<close> takes and returns.
  \<^verbatim>\<open>forEach\<close> is \<open>fold\<close>. The object branch reads each member with \<^verbatim>\<open>obj[key]\<close>, which is
  \<open>map_of\<close>; a key that is not there would read \<^verbatim>\<open>undefined\<close>, which \<^verbatim>\<open>traverse\<close> counts as
  a scalar (\<open>visit_scalar\<close>).
\<close>

record stats =
  keys :: nat
  depth :: nat
  arrays :: nat
  objects :: nat
  vals :: nat

definition visit_scalar :: "nat \<Rightarrow> stats \<Rightarrow> stats" where
  "visit_scalar d st =
     (let st1 = (if d > depth st then st\<lparr>depth := d\<rparr> else st)
      in st1\<lparr>vals := vals st1 + 1\<rparr>)"

function traverse :: "'n json \<Rightarrow> nat \<Rightarrow> stats \<Rightarrow> stats" where
  "traverse obj d st =
     (let st1 = (if d > depth st then st\<lparr>depth := d\<rparr> else st) in
      case obj of
        JArr r items \<Rightarrow>
          fold (\<lambda>item. traverse item (Suc d)) items (st1\<lparr>arrays := arrays st1 + 1\<rparr>)
      | JObj r ps \<Rightarrow>
          (let k = Object_keys ps;
               st2 = st1\<lparr>objects := objects st1 + 1\<rparr>;
               st3 = st2\<lparr>keys := keys st2 + length k\<rparr>
           in fold (\<lambda>key s. case map_of ps key of
                                 Some v \<Rightarrow> traverse v (Suc d) s
                               | None \<Rightarrow> visit_scalar (Suc d) s) k st3)
      | _ \<Rightarrow> st1\<lparr>vals := vals st1 + 1\<rparr>)"
  by pat_completeness auto
termination
proof (relation "measure (\<lambda>(obj, d, st). size obj)")
  show "wf (measure (\<lambda>(obj :: 'n json, d :: nat, st :: stats). size obj))"
    by simp
next
  fix obj :: "'n json" and r and items :: "'n json list" and item
  assume "obj = JArr r items" "item \<in> set items"
  then show "((item, Suc d, s), (obj, d, st)) \<in> measure (\<lambda>(obj, d, st). size obj)" for d s st
    by (simp add: less_Suc_eq_le size_list_estimation')
next
  fix obj :: "'n json" and r and ps :: "(string \<times> 'n json) list" and k key v
  assume obj: "obj = JObj r ps" and "k = Object_keys ps" and "key \<in> set k"
    and look: "map_of ps key = Some v"
  have "size w < Suc (size_list (size_prod (\<lambda>_. 0) size) qs)"
    if "(key, w) \<in> set qs" for w :: "'n json" and qs
    using that by (induction qs) auto
  with look obj
  show "((v, Suc d, s), (obj, d, st)) \<in> measure (\<lambda>(obj, d, st). size obj)" for d s st
    by (auto dest!: map_of_SomeD)
qed

declare traverse.simps [simp del]

definition getJSONStats :: "'n json \<Rightarrow> stats" where
  "getJSONStats data =
     traverse data 0 \<lparr>keys = 0, depth = 0, arrays = 0, objects = 0, vals = 0\<rparr>"

text \<open>
  The reference the statistics are compared with. \<open>nodes d v\<close> lists every node of \<open>v\<close>
  with its depth, the root being at depth \<open>d\<close> and the children of a node one deeper;
  \<open>stats_spec\<close> counts over that list.
\<close>

fun nodes :: "nat \<Rightarrow> 'n json \<Rightarrow> (nat \<times> 'n json) list" where
  "nodes d (JArr r xs) = (d, JArr r xs) # concat (map (nodes (Suc d)) xs)"
| "nodes d (JObj r ps) = (d, JObj r ps) # concat (map (\<lambda>kv. nodes (Suc d) (snd kv)) ps)"
| "nodes d v = [(d, v)]"

fun member_count :: "'n json \<Rightarrow> nat" where
  "member_count (JObj r ps) = length ps"
| "member_count _ = 0"

definition stats_spec :: "'n json \<Rightarrow> stats" where
  "stats_spec v =
     (let ns = nodes 0 v in
      \<lparr>keys = sum_list (map (\<lambda>n. member_count (snd n)) ns),
       depth = Max (set (map fst ns)),
       arrays = length (filter (\<lambda>n. is_List (snd n)) ns),
       objects = length (filter (\<lambda>n. is_Object (snd n)) ns),
       vals = length (filter (\<lambda>n. \<not> is_List (snd n) \<and> \<not> is_Object (snd n)) ns)\<rparr>)"

definition stats_example :: "int json" where
  "stats_example =
     JObj 0 [(''a'', JNum 1), (''b'', JArr 1 [JStr ''x'', JObj 2 [], JNull])]"


section \<open>Structural diff: \<^verbatim>\<open>jsonDiff\<close>\<close>

text \<open>
  Two tree values are deeply equal when they have the same type and value, recursively:
  the same elements in the same positions, the same members in the same order. Identity
  of the containers plays no role.
\<close>

fun deep_equal :: "'n json \<Rightarrow> 'n json \<Rightarrow> bool" where
  "deep_equal JNull JNull = True"
| "deep_equal (JBool x) (JBool y) = (x = y)"
| "deep_equal (JNum x) (JNum y) = (x = y)"
| "deep_equal (JStr x) (JStr y) = (x = y)"
| "deep_equal (JArr r xs) (JArr r' ys) = list_all2 deep_equal xs ys"
| "deep_equal (JObj r ps) (JObj r' qs) =
     list_all2 (\<lambda>kv kw. fst kv = fst kw \<and> deep_equal (snd kv) (snd kw)) ps qs"
| "deep_equal _ _ = False"

text \<open>
  \<^verbatim>\<open>compare\<close> reads members with \<^verbatim>\<open>a[key]\<close> and tests them with \<^verbatim>\<open>key in a\<close>. On a plain
  object both operations also see the properties inherited from \<^verbatim>\<open>Object.prototype\<close>, so
  the values \<^verbatim>\<open>compare\<close> can meet are: a tree value; \<^verbatim>\<open>undefined\<close>; a built-in function
  inherited from \<^verbatim>\<open>Object.prototype\<close> (named by its property); and the object
  \<^verbatim>\<open>Object.prototype\<close> itself, which is what \<^verbatim>\<open>obj["__proto__"]\<close> reads on a plain object
  that has no member of that name.
\<close>

datatype 'n jsval =
    Tree "'n json"
  | Undefined
  | Builtin string
  | ObjectPrototype

datatype 'n diff =
    Changed string "'n jsval" "'n jsval"
  | Added string "'n jsval"
  | Removed string "'n jsval"

text \<open>
  The property names of \<^verbatim>\<open>Object.prototype\<close> (ECMAScript, with the legacy accessors every
  browser provides). None of them is enumerable: \<^verbatim>\<open>Object.keys\<close> does not list them, the
  \<^verbatim>\<open>in\<close> operator finds them.
\<close>

definition Object_prototype_names :: "string list" where
  "Object_prototype_names =
     [''constructor'', ''__defineGetter__'', ''__defineSetter__'', ''hasOwnProperty'',
      ''__lookupGetter__'', ''__lookupSetter__'', ''isPrototypeOf'',
      ''propertyIsEnumerable'', ''toString'', ''valueOf'', ''__proto__'',
      ''toLocaleString'']"

text \<open>
  \<^verbatim>\<open>typeof\<close>, \<^verbatim>\<open>===\<close>, \<^verbatim>\<open>Array.isArray\<close>, \<^verbatim>\<open>a[i]\<close> on an array, \<^verbatim>\<open>Object.keys\<close>, \<^verbatim>\<open>key in a\<close> and
  \<^verbatim>\<open>a[key]\<close>. Strict equality compares primitives by value and containers by identity;
  \<^verbatim>\<open>JSON.parse\<close> yields no NaN, so a number is equal to itself. Reading a property first
  looks at the object's own members, then at what it inherits; reading
  \<^verbatim>\<open>Object.prototype["__proto__"]\<close> gives null. \<open>has_in\<close> and \<open>get\<close> are applied by
  \<^verbatim>\<open>compare\<close> to non-array objects only; their last equations are never reached.
\<close>

fun typeof :: "'n jsval \<Rightarrow> string" where
  "typeof (Tree JNull) = ''object''"
| "typeof (Tree (JBool b)) = ''boolean''"
| "typeof (Tree (JNum n)) = ''number''"
| "typeof (Tree (JStr s)) = ''string''"
| "typeof (Tree (JArr r xs)) = ''object''"
| "typeof (Tree (JObj r ps)) = ''object''"
| "typeof Undefined = ''undefined''"
| "typeof (Builtin f) = ''function''"
| "typeof ObjectPrototype = ''object''"

fun strict_eq :: "'n jsval \<Rightarrow> 'n jsval \<Rightarrow> bool" where
  "strict_eq (Tree JNull) (Tree JNull) = True"
| "strict_eq (Tree (JBool x)) (Tree (JBool y)) = (x = y)"
| "strict_eq (Tree (JNum x)) (Tree (JNum y)) = (x = y)"
| "strict_eq (Tree (JStr x)) (Tree (JStr y)) = (x = y)"
| "strict_eq (Tree (JArr r xs)) (Tree (JArr r' ys)) = (r = r')"
| "strict_eq (Tree (JObj r ps)) (Tree (JObj r' qs)) = (r = r')"
| "strict_eq Undefined Undefined = True"
| "strict_eq (Builtin f) (Builtin g) = (f = g)"
| "strict_eq ObjectPrototype ObjectPrototype = True"
| "strict_eq _ _ = False"

fun Array_isArray :: "'n jsval \<Rightarrow> bool" where
  "Array_isArray (Tree (JArr r xs)) = True"
| "Array_isArray _ = False"

fun elems :: "'n jsval \<Rightarrow> 'n json list" where
  "elems (Tree (JArr r xs)) = xs"
| "elems _ = []"

definition elem_at :: "'n json list \<Rightarrow> nat \<Rightarrow> 'n jsval" where
  "elem_at xs i = (if i < length xs then Tree (xs ! i) else Undefined)"

fun own_keys :: "'n jsval \<Rightarrow> string list" where
  "own_keys (Tree (JObj r ps)) = Object_keys ps"
| "own_keys _ = []"

fun has_in :: "string \<Rightarrow> 'n jsval \<Rightarrow> bool" where
  "has_in key (Tree (JObj r ps)) =
     (key \<in> set (Object_keys ps) \<or> key \<in> set Object_prototype_names)"
| "has_in key ObjectPrototype = (key \<in> set Object_prototype_names)"
| "has_in key _ = False"

definition inherited :: "string \<Rightarrow> 'n jsval" where
  "inherited key =
     (if key = ''__proto__'' then ObjectPrototype
      else if key \<in> set Object_prototype_names then Builtin key
      else Undefined)"

fun get :: "'n jsval \<Rightarrow> string \<Rightarrow> 'n jsval" where
  "get (Tree (JObj r ps)) key =
     (case map_of ps key of Some v \<Rightarrow> Tree v | None \<Rightarrow> inherited key)"
| "get ObjectPrototype key =
     (if key = ''__proto__'' then Tree JNull
      else if key \<in> set Object_prototype_names then Builtin key
      else Undefined)"
| "get _ key = Undefined"

text \<open>
  \<^verbatim>\<open>new Set(xs)\<close> followed by \<^verbatim>\<open>forEach\<close>: the elements in the order of their first
  occurrence.
\<close>

definition Set_of :: "'a list \<Rightarrow> 'a list" where
  "Set_of xs = fold (\<lambda>x s. if x \<in> set s then s else s @ [x]) xs []"

text \<open>The decimal text of an array index, as a template literal prints it.\<close>

definition digit_char :: "nat \<Rightarrow> char" where
  "digit_char n = ''0123456789'' ! n"

fun nat_to_string :: "nat \<Rightarrow> string" where
  "nat_to_string n = (if n < 10 then [digit_char n] else nat_to_string (n div 10) @ [digit_char (n mod 10)])"

declare nat_to_string.simps [simp del]

text \<open>
  \<^verbatim>\<open>compare\<close> pushes its entries onto the shared array \<^verbatim>\<open>diffs\<close>; here each call returns
  the entries it pushes, in the order it pushes them. \<open>compare_for\<close> is the \<^verbatim>\<open>for\<close> loop
  over the indices from \<open>i\<close> on, \<open>compare_keys\<close> is \<^verbatim>\<open>allKeys.forEach\<close> over the keys that
  remain. \<open>vsize\<close> only serves the termination proof.
\<close>

fun vsize :: "'n jsval \<Rightarrow> nat" where
  "vsize (Tree v) = 3 * size v + (if is_Object v then 2 else 0)"
| "vsize ObjectPrototype = 4"
| "vsize _ = 0"

function compare :: "'n jsval \<Rightarrow> 'n jsval \<Rightarrow> string \<Rightarrow> 'n diff list"
  and compare_for :: "'n json list \<Rightarrow> 'n json list \<Rightarrow> nat \<Rightarrow> string \<Rightarrow> 'n diff list"
  and compare_keys :: "'n jsval \<Rightarrow> 'n jsval \<Rightarrow> string list \<Rightarrow> string \<Rightarrow> 'n diff list"
where
  "compare a b p =
     (if strict_eq a b then []
      else if a = Tree JNull \<or> b = Tree JNull \<or> typeof a \<noteq> typeof b \<or> typeof a \<noteq> ''object'' then
        (if a \<noteq> Undefined \<and> b \<noteq> Undefined then [Changed p a b]
         else if a = Undefined then [Added p b]
         else [Removed p a])
      else if Array_isArray a \<and> Array_isArray b then compare_for (elems a) (elems b) 0 p
      else if Array_isArray a \<noteq> Array_isArray b then [Changed p a b]
      else compare_keys a b (Set_of (own_keys a @ own_keys b)) p)"
| "compare_for xs ys i p =
     (if i < max (length xs) (length ys) then
        (if i \<ge> length xs then [Added (p @ ''['' @ nat_to_string i @ '']'') (elem_at ys i)]
         else if i \<ge> length ys then [Removed (p @ ''['' @ nat_to_string i @ '']'') (elem_at xs i)]
         else compare (elem_at xs i) (elem_at ys i) (p @ ''['' @ nat_to_string i @ '']''))
        @ compare_for xs ys (Suc i) p
      else [])"
| "compare_keys a b [] p = []"
| "compare_keys a b (key # rest) p =
     (let childPath = p @ ''.'' @ key in
        (if \<not> has_in key a then [Added childPath (get b key)]
         else if \<not> has_in key b then [Removed childPath (get a key)]
         else compare (get a key) (get b key) childPath)
        @ compare_keys a b rest p)"
  by pat_completeness auto
termination
proof -
  have sub: "size (xs ! i) < Suc (size_list size xs)" if "i < length xs"
    for xs :: "'n json list" and i
    using that by (metis nth_mem size_list_estimation' less_Suc_eq_le order_refl)
  have mem: "size w < Suc (size_list (size_prod (\<lambda>_. 0) size) qs)"
    if "map_of qs key = Some w" for w :: "'n json" and qs key
    using that by (induction qs) (auto split: if_splits)
  have getlt: "vsize (get a key) < vsize a" if "has_in key a" for a :: "'n jsval" and key
  proof (cases a)
    case (Tree v)
    with that obtain r ps where v: "v = JObj r ps" by (cases v) auto
    show ?thesis using mem [of ps key] 
      by (auto simp: Tree v inherited_def split: option.splits)
  next
    case ObjectPrototype
    then show ?thesis by simp
  qed (use that in auto)
  have arrsz: "vsize (Tree (JArr 0 (elems a))) = vsize a" if "Array_isArray a" for a :: "'n jsval"
    using that by (cases a rule: Array_isArray.cases) auto
  have idxlt1: "vsize (elem_at xs i) < vsize (Tree (JArr 0 xs))" for xs :: "'n json list" and i
    using sub [of i xs] by (auto simp: elem_at_def)
  have idxlt: "vsize (elem_at xs i) + vsize (elem_at ys i)
                 < vsize (Tree (JArr 0 xs)) + vsize (Tree (JArr 0 ys))"
    for xs ys :: "'n json list" and i
    by (rule add_less_mono [OF idxlt1 idxlt1])
  have getlt2: "vsize (get a key) + vsize (get b key) < vsize a + vsize b"
    if "has_in key a" "has_in key b" for a b :: "'n jsval" and key
    by (rule add_less_mono [OF getlt [OF that(1)] getlt [OF that(2)]])
  show ?thesis
    by (relation "inv_image (less_than <*lex*> less_than <*lex*> less_than)
    (\<lambda>x. case x of
       Inl (a, b, p) \<Rightarrow> (vsize a + vsize b, 1, 0)
     | Inr (Inl (xs, ys, i, p)) \<Rightarrow>
         (vsize (Tree (JArr 0 xs)) + vsize (Tree (JArr 0 ys)), 0, max (length xs) (length ys) - i)
     | Inr (Inr (a, b, ks, p)) \<Rightarrow> (vsize a + vsize b, 0, length ks))")
       (auto simp del: vsize.simps simp: arrsz idxlt getlt2)
qed


declare compare.simps [simp del] compare_for.simps [simp del]

text \<open>The parameter \<^verbatim>\<open>path\<close> has the default \<^verbatim>\<open>'$'\<close>.\<close>

definition jsonDiff :: "'n json \<Rightarrow> 'n json \<Rightarrow> string \<Rightarrow> 'n diff list" where
  "jsonDiff obj1 obj2 path = compare (Tree obj1) (Tree obj2) path"

text \<open>
  The positional comparison of two lists in the words of the specification: index by
  index up to the longer length, an index beyond the left list is \<open>Added\<close>, an index
  beyond the right list is \<open>Removed\<close>, an index of both recurses.
\<close>

definition list_diff_spec :: "'n json list \<Rightarrow> 'n json list \<Rightarrow> string \<Rightarrow> 'n diff list" where
  "list_diff_spec xs ys p =
     concat (map (\<lambda>i.
        if length xs \<le> i then [Added (p @ ''['' @ nat_to_string i @ '']'') (Tree (ys ! i))]
        else if length ys \<le> i then [Removed (p @ ''['' @ nat_to_string i @ '']'') (Tree (xs ! i))]
        else compare (Tree (xs ! i)) (Tree (ys ! i)) (p @ ''['' @ nat_to_string i @ '']''))
      [0 ..< max (length xs) (length ys)])"


text \<open>Example trees for the differ.\<close>

definition diff_left :: "int json" where
  "diff_left = JObj 0 [(''a'', JArr 1 [JNum 1, JNull]), (''b'', JStr ''x'')]"

definition diff_right :: "int json" where
  "diff_right = JObj 2 [(''a'', JArr 3 [JNum 1, JNull]), (''b'', JStr ''x'')]"

section \<open>Text helpers\<close>

text \<open>
  A string is the list of its code units. \<^verbatim>\<open>s.replace(/c/g, r)\<close> for a single character
  \<open>c\<close> replaces every occurrence of \<open>c\<close> by \<open>r\<close>; \<^verbatim>\<open>String(v)\<close> and a template literal print
  a primitive the same way (the text of a number is the parameter \<open>num\<close>); the last
  equation of \<open>String\<close> is not reached, since arrays and objects are handled before
  every call. \<^verbatim>\<open>s.repeat(n)\<close> is \<open>repeat\<close>.
\<close>

definition replace_all :: "char \<Rightarrow> string \<Rightarrow> string \<Rightarrow> string" where
  "replace_all c r s = concat (map (\<lambda>x. if x = c then r else [x]) s)"

fun String :: "('n \<Rightarrow> string) \<Rightarrow> 'n json \<Rightarrow> string" where
  "String num JNull = ''null''"
| "String num (JBool b) = (if b then ''true'' else ''false'')"
| "String num (JNum n) = num n"
| "String num (JStr s) = s"
| "String num _ = []"

definition repeat :: "string \<Rightarrow> nat \<Rightarrow> string" where
  "repeat s n = concat (replicate n s)"



section \<open>XML: \<^verbatim>\<open>jsonToXml\<close>\<close>

text \<open>
  The inner function \<^verbatim>\<open>convert\<close> appends to the variable \<^verbatim>\<open>xml\<close>; here it returns the
  text it appends. The root value is handled by \<^verbatim>\<open>jsonToXml\<close> itself: an array and an
  object open the root element and convert their children, any other value is printed
  between the root tags by the template literal.
\<close>

fun convert :: "('n \<Rightarrow> string) \<Rightarrow> 'n json \<Rightarrow> string \<Rightarrow> nat \<Rightarrow> string" where
  "convert num (JArr r items) tag level =
     concat (map (\<lambda>item. convert num item tag level) items)"
| "convert num (JObj r ps) tag level =
     (let pad = repeat ''  '' level in
      pad @ ''<'' @ tag @ ''>\<newline>''
      @ concat (map (\<lambda>kv. convert num (snd kv) (fst kv) (level + 1)) ps)
      @ pad @ ''</'' @ tag @ ''>\<newline>'')"
| "convert num data tag level =
     (let pad = repeat ''  '' level;
          val = (if data = JNull then ''''
                 else replace_all CHR ''>'' ''&gt;''
                        (replace_all CHR ''<'' ''&lt;''
                          (replace_all CHR ''&'' ''&amp;'' (String num data))))
      in pad @ ''<'' @ tag @ ''>'' @ val @ ''</'' @ tag @ ''>\<newline>'')"

definition jsonToXml :: "('n \<Rightarrow> string) \<Rightarrow> 'n json \<Rightarrow> string \<Rightarrow> string" where
  \<open>jsonToXml num obj rootName =
     ''<?xml version="1.0" encoding="UTF-8"?>\<newline>'' @
     (case obj of
        JArr r items \<Rightarrow>
          ''<'' @ rootName @ ''>\<newline>''
          @ concat (map (\<lambda>item. convert num item ''item'' 1) items)
          @ ''</'' @ rootName @ ''>\<newline>''
      | JObj r ps \<Rightarrow>
          ''<'' @ rootName @ ''>\<newline>''
          @ concat (map (\<lambda>kv. convert num (snd kv) (fst kv) 1) ps)
          @ ''</'' @ rootName @ ''>\<newline>''
      | _ \<Rightarrow> ''<'' @ rootName @ ''>'' @ String num obj @ ''</'' @ rootName @ ''>\<newline>'')\<close>

text \<open>The entity that stands for a character in XML text content.\<close>

definition xml_entity :: "char \<Rightarrow> string" where
  "xml_entity c = (if c = CHR ''&'' then ''&amp;'' else if c = CHR ''<'' then ''&lt;''
                   else if c = CHR ''>'' then ''&gt;'' else [c])"


section \<open>Parsing: \<^verbatim>\<open>parseJSON\<close>\<close>

text \<open>
  \<^verbatim>\<open>JSON.parse\<close> is the engine's; it is a parameter that returns either the parsed value
  or the message of the \<^verbatim>\<open>SyntaxError\<close> it throws. The \<^verbatim>\<open>catch\<close> block searches the
  message with \<^verbatim>\<open>/position\s+(\d+)/i\<close>: \<open>match_position\<close> returns the digits of the leftmost
  match. Without the \<^verbatim>\<open>u\<close> flag only the ASCII letters match case-insensitively;
  \<^verbatim>\<open>\s\<close> is the white space among the code units below 256. Both \<^verbatim>\<open>\s+\<close> and \<^verbatim>\<open>\d+\<close> are
  greedy, and giving characters back never helps, as no character is both a space and
  a digit. \<^verbatim>\<open>null\<close> in the result is \<open>None\<close>; the fields \<^verbatim>\<open>success\<close>, \<^verbatim>\<open>data\<close>, \<^verbatim>\<open>error\<close> of
  the result and \<^verbatim>\<open>message\<close>, \<^verbatim>\<open>line\<close>, \<^verbatim>\<open>col\<close> of the error carry a prefix here.
\<close>

record parse_error =
  err_message :: string
  err_line :: "nat option"
  err_col :: "nat option"

record 'a parse_result =
  res_success :: bool
  res_data :: "'a option"
  res_error :: "parse_error option"

definition is_space :: "char \<Rightarrow> bool" where
  "is_space c = (c \<in> set [CHR 0x09, CHR 0x0A, CHR 0x0B, CHR 0x0C, CHR 0x0D, CHR 0x20, CHR 0xA0])"

definition is_digit :: "char \<Rightarrow> bool" where
  "is_digit c = (c \<in> set ''0123456789'')"

definition ascii_lower :: "char \<Rightarrow> char" where
  "ascii_lower c =
     (case map_of (zip ''ABCDEFGHIJKLMNOPQRSTUVWXYZ'' ''abcdefghijklmnopqrstuvwxyz'') c of
        Some l \<Rightarrow> l
      | None \<Rightarrow> c)"

definition match_position_here :: "string \<Rightarrow> string option" where
  "match_position_here s =
     (if map ascii_lower (take 8 s) = ''position'' then
        (let rest = drop 8 s;
             spaces = takeWhile is_space rest;
             digits = takeWhile is_digit (dropWhile is_space rest)
         in if spaces \<noteq> [] \<and> digits \<noteq> [] then Some digits else None)
      else None)"

fun match_position :: "string \<Rightarrow> string option" where
  "match_position [] = match_position_here []"
| "match_position (c # cs) =
     (case match_position_here (c # cs) of
        Some digits \<Rightarrow> Some digits
      | None \<Rightarrow> match_position cs)"

definition digit_value :: "char \<Rightarrow> nat" where
  "digit_value c = of_char c - 48"

definition parseInt :: "string \<Rightarrow> nat" where
  "parseInt digits = foldl (\<lambda>n c. 10 * n + digit_value c) 0 digits"

definition substring :: "string \<Rightarrow> nat \<Rightarrow> nat \<Rightarrow> string" where
  "substring s i j = take (max i j - min i j) (drop (min i j) s)"

fun split_newline :: "string \<Rightarrow> string list" where
  "split_newline [] = [[]]"
| "split_newline (c # cs) =
     (if c = CHR ''\<newline>'' then [] # split_newline cs
      else case split_newline cs of
             l # ls \<Rightarrow> (c # l) # ls
           | [] \<Rightarrow> [[c]])"

definition parseJSON :: "(string \<Rightarrow> string + 'a) \<Rightarrow> string \<Rightarrow> 'a parse_result" where
  "parseJSON JSON_parse text =
     (case JSON_parse text of
        Inr d \<Rightarrow> \<lparr>res_success = True, res_data = Some d, res_error = None\<rparr>
      | Inl msg \<Rightarrow>
          (let match = match_position msg;
               (ln, cl) =
                 (case match of
                    Some digits \<Rightarrow>
                      (let pos = parseInt digits;
                           lines = split_newline (substring text 0 pos)
                       in (Some (length lines), Some (length (last lines) + 1)))
                  | None \<Rightarrow> (None, None))
           in \<lparr>res_success = False, res_data = None,
               res_error = Some \<lparr>err_message = msg, err_line = ln, err_col = cl\<rparr>\<rparr>))"

text \<open>
  The number the \<^verbatim>\<open>catch\<close> block reads out of the message: the digits of the leftmost
  match of the pattern, as a decimal. It is whatever number follows the word
  \<open>position\<close> in the message; nothing makes it the offset at which parsing failed.
\<close>

definition extracted_position :: "string \<Rightarrow> nat option" where
  "extracted_position msg = map_option parseInt (match_position msg)"

definition parse_example_text :: string where
  \<open>parse_example_text = ''{\<newline>  "a": 1,\<newline>}''\<close>

definition parse_example_engine :: "string \<Rightarrow> string + int json" where
  "parse_example_engine text = Inl ''Unexpected token } in JSON at position 12''"

text \<open>
  The message of current V8 for a short text that is not JSON from its first character
  on, such as \<open>position 5\<close>: it names the offending character and quotes the text, and it
  gives no offset.
\<close>

definition quoting_engine :: "string \<Rightarrow> string + int json" where
  \<open>quoting_engine text =
     Inl (''Unexpected token '' @ [CHR 0x27] @ take 1 text @ [CHR 0x27]
          @ '', "'' @ text @ ''" is not valid JSON'')\<close>

section \<open>Tree view: \<^verbatim>\<open>buildTreeHTML\<close>\<close>

text \<open>
  \<^verbatim>\<open>Object.entries\<close> of an object is its member list; of an array it is the list of the
  elements paired with the decimal text of their indices, which is also how
  \<^verbatim>\<open>data.map((v, i) => [i, v])\<close> prints in a template literal.
\<close>

definition indexed :: "'n json list \<Rightarrow> (string \<times> 'n json) list" where
  "indexed xs = zip (map nat_to_string [0 ..< length xs]) xs"

fun Object_entries :: "'n json \<Rightarrow> (string \<times> 'n json) list" where
  "Object_entries (JObj r ps) = ps"
| "Object_entries (JArr r xs) = indexed xs"
| "Object_entries _ = []"

text \<open>The four replacements applied to a string leaf, in the order of the source.\<close>

definition escape_html :: "string \<Rightarrow> string" where
  "escape_html s =
     replace_all (CHR 0x22) ''&quot;''
       (replace_all CHR ''>'' ''&gt;''
         (replace_all CHR ''<'' ''&lt;''
           (replace_all CHR ''&'' ''&amp;'' s)))"

text \<open>
  The character U+25BC of the toggle lies outside the code units written as \<open>char\<close>
  here; it stands by its UTF-8 bytes. No result depends on it.
\<close>

definition down_triangle :: string where
  "down_triangle = [CHR 0xE2, CHR 0x96, CHR 0xBC]"

text \<open>
  Each container node draws an identifier with \<^verbatim>\<open>Math.random().toString(36).substr(2, 9)\<close>.
  The draws are a parameter: \<open>rnd k\<close> is the text of the \<open>k\<close>-th draw, and the number of
  draws made so far is passed along and returned. \<open>tree_lines\<close> is the \<^verbatim>\<open>forEach\<close> over the
  entries that remain, \<open>idx\<close> being the index of the first of them. The parameter
  \<^verbatim>\<open>isLast\<close> is passed along and never read, as in the source.
\<close>

function buildTreeHTML ::
    "('n \<Rightarrow> string) \<Rightarrow> (nat \<Rightarrow> string) \<Rightarrow> 'n json \<Rightarrow> string \<Rightarrow> bool \<Rightarrow> nat \<Rightarrow> string \<times> nat"
  and tree_lines ::
    "('n \<Rightarrow> string) \<Rightarrow> (nat \<Rightarrow> string) \<Rightarrow> (string \<times> 'n json) list \<Rightarrow> nat \<Rightarrow> nat \<Rightarrow> bool \<Rightarrow> string
       \<Rightarrow> nat \<Rightarrow> string \<times> nat"
where
  \<open>buildTreeHTML num rnd JNull path isLast n =
     (''<span class="tree-null" data-path="'' @ path @ ''">null</span>'', n)\<close>
| \<open>buildTreeHTML num rnd (JStr s) path isLast n =
     (let escaped = escape_html s in
      (''<span class="tree-string" data-path="'' @ path @ ''">"'' @ escaped @ ''"</span>'', n))\<close>
| \<open>buildTreeHTML num rnd (JBool b) path isLast n =
     (''<span class="tree-boolean" data-path="'' @ path @ ''">'' @ String num (JBool b) @ ''</span>'', n)\<close>
| \<open>buildTreeHTML num rnd (JNum x) path isLast n =
     (''<span class="tree-number" data-path="'' @ path @ ''">'' @ String num (JNum x) @ ''</span>'', n)\<close>
| \<open>buildTreeHTML num rnd (JArr r xs) path isLast n =
     (let entries = indexed xs;
          count = length entries;
          ident = ''node-'' @ rnd n
      in if count = 0 then (''<span class="tree-bracket">[]</span>'', Suc n)
         else
           (let html =
                  ''<span class="tree-toggle" onclick="toggleTreeNode('' @ [CHR 0x27] @ ident
                    @ [CHR 0x27] @ '')" id="toggle-'' @ ident @ ''">'' @ down_triangle @ ''</span>''
                  @ ''<span class="tree-bracket">[</span>''
                  @ ''<span class="tree-count">'' @ nat_to_string count @ '' items</span>''
                  @ ''<div class="tree-node" id="'' @ ident @ ''">'';
                (lines, n') = tree_lines num rnd entries 0 count True path (Suc n)
            in (html @ lines @ ''</div><span class="tree-bracket">]</span>'', n')))\<close>
| \<open>buildTreeHTML num rnd (JObj r ps) path isLast n =
     (let entries = ps;
          count = length entries;
          ident = ''node-'' @ rnd n
      in if count = 0 then (''<span class="tree-bracket">{}</span>'', Suc n)
         else
           (let html =
                  ''<span class="tree-toggle" onclick="toggleTreeNode('' @ [CHR 0x27] @ ident
                    @ [CHR 0x27] @ '')" id="toggle-'' @ ident @ ''">'' @ down_triangle @ ''</span>''
                  @ ''<span class="tree-bracket">{</span>''
                  @ ''<span class="tree-count">'' @ nat_to_string count @ '' keys</span>''
                  @ ''<div class="tree-node" id="'' @ ident @ ''">'';
                (lines, n') = tree_lines num rnd entries 0 count False path (Suc n)
            in (html @ lines @ ''</div><span class="tree-bracket">}</span>'', n')))\<close>
| \<open>tree_lines num rnd [] idx count isArray path n = ('''', n)\<close>
| \<open>tree_lines num rnd ((key, v) # es) idx count isArray path n =
     (let childPath = (if isArray then path @ ''['' @ key @ '']'' else path @ ''.'' @ key);
          comma = (if idx < count - 1 then ''<span class="tree-comma">,</span>'' else '''');
          keyspan =
            (if \<not> isArray then
               ''<span class="tree-key" data-path="'' @ childPath @ ''" onclick="copyPath(''
                 @ [CHR 0x27] @ childPath @ [CHR 0x27]
                 @ '')" title="Click to copy path">"'' @ key
                 @ ''"</span><span class="tree-colon">:</span> ''
             else
               ''<span class="tree-key" data-path="'' @ childPath @ ''" onclick="copyPath(''
                 @ [CHR 0x27] @ childPath @ [CHR 0x27]
                 @ '')" title="Click to copy path" style="color:var(--text-muted);font-size:0.78rem;">''
                 @ key @ ''</span><span class="tree-colon">:</span> '');
          (sub, n1) = buildTreeHTML num rnd v childPath (idx = count - 1) n;
          (rest, n2) = tree_lines num rnd es (Suc idx) count isArray path n1
      in (''<div class="tree-line">'' @ keyspan @ sub @ comma @ ''</div>'' @ rest, n2))\<close>
  by pat_completeness auto
termination
proof -
  have zip_le: "size_list (\<lambda>kv. size (snd kv)) (zip ks xs) \<le> size_list size xs"
    for ks :: "string list" and xs :: "'n json list"
  proof (induction xs arbitrary: ks)
    case Nil show ?case by simp
  next
    case (Cons x xs) then show ?case by (cases ks) (auto simp: le_SucI)
  qed
  have obj_le: "size_list (\<lambda>kv. size (snd kv)) ps \<le> size_list (size_prod (\<lambda>_. 0) size) ps"
    for ps :: "(string \<times> 'n json) list"
    by (induction ps) auto
  have zip_lt: "2 * size_list (\<lambda>kv. size (snd kv)) (zip ks xs) < Suc (2 * size_list size xs)"
    for ks :: "string list" and xs :: "'n json list"
    using zip_le [of ks xs] by simp
  have obj_lt: "2 * size_list (\<lambda>kv. size (snd kv)) ps
                  < Suc (2 * size_list (size_prod (\<lambda>_. 0) size) ps)"
    for ps :: "(string \<times> 'n json) list"
    using obj_le [of ps] by simp
  show ?thesis
    by (relation "measure (\<lambda>x. case x of
          Inl (num, rnd, v, path, isLast, n) \<Rightarrow> 2 * size v
        | Inr (num, rnd, es, idx, count, isArray, path, n) \<Rightarrow>
            2 * size_list (\<lambda>kv. size (snd kv)) es + 1)")
       (simp_all add: indexed_def zip_lt obj_lt)
qed


declare buildTreeHTML.simps [simp del] tree_lines.simps [simp del]

text \<open>The entity that stands for a character in the text of a string leaf.\<close>

definition html_entity :: "char \<Rightarrow> string" where
  "html_entity c =
     (if c = CHR ''&'' then ''&amp;'' else if c = CHR ''<'' then ''&lt;''
      else if c = CHR ''>'' then ''&gt;'' else if c = CHR 0x22 then ''&quot;'' else [c])"

section \<open>Interface description: \<^verbatim>\<open>jsonToTypeScript\<close>\<close>

text \<open>
  The array \<^verbatim>\<open>interfaces\<close> and the map \<^verbatim>\<open>seen\<close> are local to one call of
  \<^verbatim>\<open>jsonToTypeScript\<close> and updated by its inner functions; here they are a state that the
  inner functions take and return.
\<close>

record ts_state =
  interfaces :: "string list"
  seen :: "string \<rightharpoonup> bool"

text \<open>
  \<^verbatim>\<open>name.replace(/s$/, '')\<close> removes one final \<open>s\<close>. \<^verbatim>\<open>capitalize\<close> upper-cases the first
  code unit and removes from the rest every character that is not an ASCII letter or
  digit; \<^verbatim>\<open>toUpperCase\<close> is the engine's and is a parameter (\<open>up\<close> below). The test for a
  bare field name is \<^verbatim>\<open>/^[a-zA-Z_$][a-zA-Z0-9_$]*$/\<close>. \<^verbatim>\<open>xs.join(sep)\<close> is \<open>join\<close>.
\<close>

definition strip_trailing_s :: "string \<Rightarrow> string" where
  "strip_trailing_s name = (if name \<noteq> [] \<and> last name = CHR ''s'' then butlast name else name)"

definition is_alnum :: "char \<Rightarrow> bool" where
  "is_alnum c =
     (c \<in> set ''abcdefghijklmnopqrstuvwxyzABCDEFGHIJKLMNOPQRSTUVWXYZ0123456789'')"

definition capitalize :: "(string \<Rightarrow> string) \<Rightarrow> string \<Rightarrow> string" where
  "capitalize toUpperCase str = toUpperCase (take 1 str) @ filter is_alnum (drop 1 str)"

fun is_identifier :: "string \<Rightarrow> bool" where
  "is_identifier [] = False"
| "is_identifier (c # cs) =
     ((is_alnum c \<and> \<not> is_digit c \<or> c = CHR ''_'' \<or> c = CHR ''$'') \<and>
      list_all (\<lambda>d. is_alnum d \<or> d = CHR ''_'' \<or> d = CHR ''$'') cs)"

fun join :: "string \<Rightarrow> string list \<Rightarrow> string" where
  "join sep [] = []"
| "join sep [x] = x"
| "join sep (x # y # ys) = x @ sep @ join sep (y # ys)"

text \<open>
  \<open>getTypes\<close> is \<^verbatim>\<open>value.map(v => getType(v, ...))\<close>, \<open>interface_fields\<close> is the \<^verbatim>\<open>forEach\<close>
  of \<^verbatim>\<open>generateInterface\<close> over the entries that remain, with the text of \<^verbatim>\<open>code\<close> so far.
  \<^verbatim>\<open>generateInterface\<close> pushes the finished block when the loop is over.
\<close>

function getType ::
    "(string \<Rightarrow> string) \<Rightarrow> 'n json \<Rightarrow> string \<Rightarrow> ts_state \<Rightarrow> string \<times> ts_state"
  and getTypes ::
    "(string \<Rightarrow> string) \<Rightarrow> 'n json list \<Rightarrow> string \<Rightarrow> ts_state \<Rightarrow> string list \<times> ts_state"
  and generateInterface ::
    "(string \<Rightarrow> string) \<Rightarrow> 'n json \<Rightarrow> string \<Rightarrow> ts_state \<Rightarrow> ts_state"
  and interface_fields ::
    "(string \<Rightarrow> string) \<Rightarrow> (string \<times> 'n json) list \<Rightarrow> string \<Rightarrow> ts_state \<Rightarrow> string \<times> ts_state"
where
  "getType up JNull name st = (''null'', st)"
| "getType up (JArr r xs) name st =
     (if length xs = 0 then (''any[]'', st)
      else
        (let (types, st') = getTypes up xs (strip_trailing_s name) st;
             itemTypes = Set_of types
         in if length itemTypes = 1 then (itemTypes ! 0 @ ''[]'', st')
            else (''('' @ join '' | '' itemTypes @ '')[]'', st')))"
| "getType up (JObj r ps) name st =
     (let iName = capitalize up name in
      if iName \<notin> dom (seen st) then
        (iName, generateInterface up (JObj r ps) iName (st\<lparr>seen := (seen st)(iName \<mapsto> True)\<rparr>))
      else (iName, st))"
| "getType up (JBool b) name st = (typeof (Tree (JBool b :: 'n json)), st)"
| "getType up (JNum x) name st = (typeof (Tree (JNum x)), st)"
| "getType up (JStr s) name st = (typeof (Tree (JStr s :: 'n json)), st)"
| "getTypes up [] name st = ([], st)"
| "getTypes up (v # vs) name st =
     (let (t, st1) = getType up v name st;
          (ts, st2) = getTypes up vs name st1
      in (t # ts, st2))"
| "generateInterface up obj name st =
     (let code = ''interface '' @ name @ '' {\<newline>'';
          (code', st') = interface_fields up (Object_entries obj) code st;
          code'' = code' @ ''}''
      in st'\<lparr>interfaces := interfaces st' @ [code'']\<rparr>)"
| "interface_fields up [] code st = (code, st)"
| "interface_fields up ((key, v) # es) code st =
     (let safeName = (if is_identifier key then key else [CHR 0x22] @ key @ [CHR 0x22]);
          (type, st1) = getType up v key st
      in interface_fields up es (code @ ''  '' @ safeName @ '': '' @ type @ '';\<newline>'') st1)"
  by pat_completeness auto
termination
proof -
  have zip_le: "size_list (\<lambda>kv. size (snd kv)) (zip ks xs) \<le> size_list size xs"
    for ks :: "string list" and xs :: "'n json list"
  proof (induction xs arbitrary: ks)
    case Nil show ?case by simp
  next
    case (Cons x xs) then show ?case by (cases ks) (auto simp: le_SucI)
  qed
  have obj_le: "size_list (\<lambda>kv. size (snd kv)) ps \<le> size_list (size_prod (\<lambda>_. 0) size) ps"
    for ps :: "(string \<times> 'n json) list"
    by (induction ps) auto
  have entries: "Suc (2 * size_list (\<lambda>kv. size (snd kv)) (Object_entries obj)) < 2 * size obj"
    for obj :: "'n json"
  proof (cases obj)
    case (JArr r xs)
    then show ?thesis using zip_le [of "map nat_to_string [0..<length xs]" xs]
      by (simp add: indexed_def)
  next
    case (JObj r ps)
    then show ?thesis using obj_le [of ps] by simp
  qed simp_all
  show ?thesis
    by (relation "measure (\<lambda>x. case x of
          Inl (Inl (up, v, name, st)) \<Rightarrow> 2 * size v + 1
        | Inl (Inr (up, vs, name, st)) \<Rightarrow> 2 * size_list size vs + 1
        | Inr (Inl (up, obj, name, st)) \<Rightarrow> 2 * size obj
        | Inr (Inr (up, es, code, st)) \<Rightarrow> 2 * size_list (\<lambda>kv. size (snd kv)) es + 1)")
       (simp_all add: entries)
qed


declare getType.simps [simp del] getTypes.simps [simp del] generateInterface.simps [simp del]
  interface_fields.simps [simp del]

definition jsonToTypeScript :: "(string \<Rightarrow> string) \<Rightarrow> 'n json \<Rightarrow> string \<Rightarrow> string" where
  "jsonToTypeScript up data interfaceName =
     (let st0 = \<lparr>interfaces = [], seen = Map.empty\<rparr> in
      case data of
        JArr r xs \<Rightarrow>
          (if length xs > 0 \<and> typeof (elem_at xs 0) = ''object'' \<and> elem_at xs 0 \<noteq> Tree JNull then
             (let st = generateInterface up (xs ! 0) interfaceName st0
              in join ''\<newline>\<newline>'' (rev (interfaces st))
                 @ ''\<newline>\<newline>type '' @ interfaceName @ ''List = '' @ interfaceName @ ''[];'')
           else ''type '' @ interfaceName @ '' = '' @ fst (getType up data interfaceName st0) @ '';'')
      | JObj r ps \<Rightarrow>
          (let st = generateInterface up data interfaceName st0
           in join ''\<newline>\<newline>'' (rev (interfaces st)))
      | _ \<Rightarrow> ''type '' @ interfaceName @ '' = '' @ typeof (Tree data) @ '';'')"

text \<open>Upper-casing of ASCII text, for the examples.\<close>

definition ascii_upper :: "string \<Rightarrow> string" where
  "ascii_upper s =
     map (\<lambda>c. case map_of (zip ''abcdefghijklmnopqrstuvwxyz'' ''ABCDEFGHIJKLMNOPQRSTUVWXYZ'') c of
                Some u \<Rightarrow> u
              | None \<Rightarrow> c) s"




section \<open>Token classifier: \<^verbatim>\<open>syntaxHighlight\<close>\<close>



















section \<open>Results about the statistics\<close>

text \<open>What a list of visited nodes adds to the counters.\<close>

definition absorb :: "stats \<Rightarrow> (nat \<times> 'n json) list \<Rightarrow> stats" where
  "absorb st ns =
     st\<lparr>keys := keys st + sum_list (map (\<lambda>n. member_count (snd n)) ns),
        depth := fold max (map fst ns) (depth st),
        arrays := arrays st + length (filter (\<lambda>n. is_List (snd n)) ns),
        objects := objects st + length (filter (\<lambda>n. is_Object (snd n)) ns),
        vals := vals st + length (filter (\<lambda>n. \<not> is_List (snd n) \<and> \<not> is_Object (snd n)) ns)\<rparr>"

lemma absorb_Nil: "absorb st [] = st"
  by (simp add: absorb_def)

lemma absorb_append: "absorb st (ns @ ms) = absorb (absorb st ns) ms"
  by (simp add: absorb_def)

lemma fold_absorb:
  "(\<And>x s. x \<in> set xs \<Longrightarrow> f x s = absorb s (g x)) \<Longrightarrow>
   fold f xs st = absorb st (concat (map g xs))"
proof (induction xs arbitrary: st)
  case Nil
  show ?case by (simp add: absorb_Nil)
next
  case (Cons x xs)
  have "fold f (x # xs) st = fold f xs (absorb st (g x))"
    using Cons.prems by simp
  also have "\<dots> = absorb (absorb st (g x)) (concat (map g xs))"
    using Cons.IH Cons.prems by simp
  finally show ?case by (simp add: absorb_append)
qed

lemma own_member:
  "distinct (map fst ps) \<Longrightarrow> kv \<in> set ps \<Longrightarrow> map_of ps (fst kv) = Some (snd kv)"
  by (cases kv) simp

lemma traverse_scalar:
  "\<not> is_List v \<Longrightarrow> \<not> is_Object v \<Longrightarrow> traverse v d st = absorb st [(d, v)]"
  by (cases v) (simp_all add: traverse.simps absorb_def max_def)

lemma traverse_JArr:
  "traverse (JArr r xs) d st =
     fold (\<lambda>item. traverse item (Suc d)) xs (absorb st [(d, JArr r xs)])"
  by (subst traverse.simps) (simp add: absorb_def max_def)

lemma traverse_JObj:
  "traverse (JObj r ps) d st =
     fold (\<lambda>key s. case map_of ps key of Some v \<Rightarrow> traverse v (Suc d) s
                     | None \<Rightarrow> visit_scalar (Suc d) s)
          (map fst ps) (absorb st [(d, JObj r ps)])"
  by (subst traverse.simps, cases st) (simp add: absorb_def max_def Object_keys_def)

lemma traverse_absorb: "wf_json v \<Longrightarrow> traverse v d st = absorb st (nodes d v)"
proof (induction v arbitrary: d st)
  case (JArr r xs)
  have step: "\<And>x s. x \<in> set xs \<Longrightarrow> traverse x (Suc d) s = absorb s (nodes (Suc d) x)"
    using JArr by (simp add: list_all_iff)
  have "traverse (JArr r xs) d st
          = absorb (absorb st [(d, JArr r xs)]) (concat (map (nodes (Suc d)) xs))"
    unfolding traverse_JArr by (rule fold_absorb [OF step])
  then show ?case by (simp add: absorb_append [symmetric])
next
  case (JObj r ps)
  have dist: "distinct (map fst ps)" using JObj.prems by simp
  let ?f = "\<lambda>key s. case map_of ps key of Some v \<Rightarrow> traverse v (Suc d) s
                       | None \<Rightarrow> visit_scalar (Suc d) s"
  have step: "\<And>kv s. kv \<in> set ps \<Longrightarrow> (?f \<circ> fst) kv s = absorb s (nodes (Suc d) (snd kv))"
  proof -
    fix kv s assume mem: "kv \<in> set ps"
    have "wf_json (snd kv)" using JObj.prems mem by (simp add: list_all_iff)
    moreover have "snd kv \<in> Basic_BNFs.snds kv" by (cases kv) simp
    ultimately have "traverse (snd kv) (Suc d) s = absorb s (nodes (Suc d) (snd kv))"
      using JObj.IH mem by blast
    then show "(?f \<circ> fst) kv s = absorb s (nodes (Suc d) (snd kv))"
      by (simp add: own_member [OF dist mem])
  qed
  have "traverse (JObj r ps) d st
          = absorb (absorb st [(d, JObj r ps)]) (concat (map (\<lambda>kv. nodes (Suc d) (snd kv)) ps))"
    unfolding traverse_JObj fold_map by (rule fold_absorb [OF step])
  then show ?case by (simp add: absorb_append [symmetric])
qed (simp_all add: traverse_scalar)

lemma fold_max_Max: "ns \<noteq> [] \<Longrightarrow> fold max ns (0::nat) = Max (set ns)"
proof (cases ns)
  case (Cons n ms)
  have "fold max ns 0 = fold max ms n" using Cons by simp
  also have "\<dots> = Max (set (n # ms))" by (rule Max.set_eq_fold [symmetric])
  finally show ?thesis using Cons by simp
qed simp

lemma nodes_nonempty: "nodes d v \<noteq> []"
  by (cases v) simp_all

text \<open>
  Claim C7. For every tree value (an object's keys being pairwise different),
  \<open>getJSONStats\<close> returns exactly the counts of the reference: the number of List nodes,
  the number of Object nodes, the sum of the member counts of the Object nodes, the
  number of Null/Bool/Number/String nodes, and the greatest depth of a node, where the
  root is at depth 0 and the elements and member values of a node are one deeper.
\<close>

theorem getJSONStats_reference:
  "wf_json v \<Longrightarrow> getJSONStats v = stats_spec v"
  by (simp add: getJSONStats_def traverse_absorb absorb_def stats_spec_def Let_def
        fold_max_Max nodes_nonempty)

theorem getJSONStats_reference_witness:
  "wf_json stats_example \<and>
   getJSONStats stats_example = \<lparr>keys = 2, depth = 2, arrays = 1, objects = 2, vals = 3\<rparr>"
proof -
  have wf: "wf_json stats_example"
    by (simp add: stats_example_def)
  have "stats_spec stats_example = \<lparr>keys = 2, depth = 2, arrays = 1, objects = 2, vals = 3\<rparr>"
    by (simp add: stats_spec_def stats_example_def Let_def)
  with getJSONStats_reference [OF wf] wf show ?thesis by simp
qed


section \<open>Results about the differ\<close>

lemma strict_eq_refl: "strict_eq (Tree v) (Tree v)"
  by (cases v) simp_all

lemma compare_same: "compare (Tree v) (Tree v) p = []"
  by (subst compare.simps) (simp add: strict_eq_refl)

lemma compare_for_spec:
  "compare_for xs ys i p =
     concat (map (\<lambda>i.
        if length xs \<le> i then [Added (p @ ''['' @ nat_to_string i @ '']'') (Tree (ys ! i))]
        else if length ys \<le> i then [Removed (p @ ''['' @ nat_to_string i @ '']'') (Tree (xs ! i))]
        else compare (Tree (xs ! i)) (Tree (ys ! i)) (p @ ''['' @ nat_to_string i @ '']''))
      [i ..< max (length xs) (length ys)])"
proof (induction "max (length xs) (length ys) - i" arbitrary: i)
  case 0
  then have "\<not> i < max (length xs) (length ys)" by arith
  then show ?case by (subst compare_for.simps) simp
next
  case (Suc n)
  then have lt: "i < max (length xs) (length ys)" and n: "n = max (length xs) (length ys) - Suc i"
    by auto
  show ?case
    by (subst compare_for.simps, subst upt_conv_Cons [OF lt])
       (use lt in \<open>auto simp: Suc.hyps(1) [OF n] elem_at_def\<close>)
qed

text \<open>
  Claim C6. Two List values at path \<open>p\<close> are compared position by position, from index 0
  up to the longer of the two lengths: an index beyond the left list yields \<open>Added\<close> at
  \<open>p[index]\<close> with the right element, an index beyond the right list yields \<open>Removed\<close> at
  \<open>p[index]\<close> with the left element, an index of both lists recurses on the two elements
  at \<open>p[index]\<close>; nothing is reordered or aligned. (The same identity means the same
  array.)
\<close>

theorem compare_lists_positional:
  "(r = r' \<longrightarrow> xs = ys) \<Longrightarrow>
   compare (Tree (JArr r xs)) (Tree (JArr r' ys)) p = list_diff_spec xs ys p"
proof (cases "r = r'")
  case True
  assume "r = r' \<longrightarrow> xs = ys"
  with True have "xs = ys" by simp
  have "list_diff_spec xs xs p = []"
    by (simp add: list_diff_spec_def compare_same)
  then show ?thesis using True \<open>xs = ys\<close> by (simp add: compare_same)
next
  case False
  then show ?thesis
    by (subst compare.simps) (simp add: compare_for_spec list_diff_spec_def)
qed


lemma set_fold_Set_of:
  "set (fold (\<lambda>x s. if x \<in> set s then s else s @ [x]) xs acc) = set acc \<union> set xs"
  by (induction xs arbitrary: acc) auto

lemma set_Set_of: "set (Set_of xs) = set xs"
  by (simp add: Set_of_def set_fold_Set_of)

lemma compare_for_equal_length:
  assumes "length xs = length ys"
    and "\<And>j q. j < length xs \<Longrightarrow> compare (Tree (xs ! j)) (Tree (ys ! j)) q = []"
  shows "compare_for xs ys i p = []"
  using assms by (simp add: compare_for_spec)

lemma compare_keys_common:
  assumes "\<And>key q. key \<in> set ks \<Longrightarrow>
             has_in key a \<and> has_in key b \<and> compare (get a key) (get b key) q = []"
  shows "compare_keys a b ks p = []"
  using assms by (induction ks) (simp_all add: Let_def)

lemma members_deep_equal:
  assumes "list_all2 (\<lambda>kv kw. fst kv = fst kw \<and> deep_equal (snd kv) (snd kw)) ps qs"
    and "map_of ps key = Some v"
  shows "\<exists>w. map_of qs key = Some w \<and> deep_equal v w"
  using assms by (induction ps qs rule: list_all2_induct) (auto split: if_splits)

lemma keys_deep_equal:
  assumes "list_all2 (\<lambda>kv kw. fst kv = fst kw \<and> deep_equal (snd kv) (snd kw)) ps qs"
  shows "map fst ps = map fst qs"
  using assms by (induction ps qs rule: list_all2_induct) auto

lemma deep_equal_compare: "deep_equal a b \<Longrightarrow> compare (Tree a) (Tree b) p = []"
proof (induction a arbitrary: b p)
  case JNull
  then show ?case by (cases b) (simp_all add: compare.simps)
next
  case (JBool x)
  then show ?case by (cases b) (simp_all add: compare.simps)
next
  case (JNum x)
  then show ?case by (cases b) (simp_all add: compare.simps)
next
  case (JStr x)
  then show ?case by (cases b) (simp_all add: compare.simps)
next
  case (JArr r xs)
  then obtain r' ys where b: "b = JArr r' ys" and eq: "list_all2 deep_equal xs ys"
    by (cases b) simp_all
  have len: "length xs = length ys" using eq by (rule list_all2_lengthD)
  have elt: "compare (Tree (xs ! j)) (Tree (ys ! j)) q = []" if "j < length xs" for j q
    using JArr.IH [of "xs ! j" "ys ! j" q] that eq by (simp add: list_all2_nthD)
  show ?case unfolding b
    by (subst compare.simps) (simp add: compare_for_equal_length [OF len elt])
next
  case (JObj r ps)
  then obtain r' qs where b: "b = JObj r' qs"
    and eq: "list_all2 (\<lambda>kv kw. fst kv = fst kw \<and> deep_equal (snd kv) (snd kw)) ps qs"
    by (cases b) simp_all
  have keys: "map fst qs = map fst ps" using keys_deep_equal [OF eq] by simp
  have member: "has_in key (Tree (JObj r ps)) \<and> has_in key (Tree (JObj r' qs)) \<and>
      compare (get (Tree (JObj r ps)) key) (get (Tree (JObj r' qs)) key) q = []"
    if "key \<in> set (map fst ps)" for key q
  proof -
    from that obtain v where v: "map_of ps key = Some v"
      by (metis map_of_eq_None_iff not_Some_eq set_map)
    with members_deep_equal [OF eq] obtain w where w: "map_of qs key = Some w" "deep_equal v w"
      by blast
    have "(key, v) \<in> set ps" using v by (rule map_of_SomeD)
    then have "compare (Tree v) (Tree w) q = []"
      using JObj.IH [of "(key, v)" v w q] w(2) by simp
    then show ?thesis using that v w keys by (simp add: Object_keys_def)
  qed
  have "compare_keys (Tree (JObj r ps)) (Tree (JObj r' qs)) ks p = []"
    if "set ks = set (map fst ps)" for ks
    by (rule compare_keys_common) (use member that in blast)
  then show ?case unfolding b
    by (subst compare.simps) (simp add: set_Set_of Object_keys_def keys)
qed

text \<open>
  Claim C5. \<open>jsonDiff v v\<close> is the empty list for every tree value \<open>v\<close>, and so is the diff
  of any two deeply equal tree values, whether or not they share containers.
\<close>

theorem jsonDiff_deep_equal_empty:
  "jsonDiff v v path = [] \<and> (deep_equal a b \<longrightarrow> jsonDiff a b path = [])"
  by (simp add: jsonDiff_def compare_same deep_equal_compare)


theorem jsonDiff_deep_equal_empty_witness:
  "deep_equal diff_left diff_right \<and> jsonDiff diff_left diff_right ''$'' = []"
proof -
  have eq: "deep_equal diff_left diff_right"
    by (simp add: diff_left_def diff_right_def)
  with jsonDiff_deep_equal_empty [of diff_left "''$''" diff_left diff_right]
  show ?thesis by simp
qed

theorem compare_lists_positional_witness:
  "compare (Tree (JArr 0 [JNum (1::int), JNum 2])) (Tree (JArr 1 [JNum 1, JNum 3, JNum 4])) ''$''
     = [Changed ''$[1]'' (Tree (JNum 2)) (Tree (JNum 3)), Added ''$[2]'' (Tree (JNum 4))]"
proof -
  have ne: "(0::nat) = 1 \<longrightarrow> [JNum (1::int), JNum 2] = [JNum 1, JNum 3, JNum 4]"
    by simp
  have "list_diff_spec [JNum (1::int), JNum 2] [JNum 1, JNum 3, JNum 4] ''$''
          = [Changed ''$[1]'' (Tree (JNum 2)) (Tree (JNum 3)), Added ''$[2]'' (Tree (JNum 4))]"
    by (simp add: list_diff_spec_def compare.simps nat_to_string.simps digit_char_def upt_rec)
  with compare_lists_positional [OF ne, of "''$''"] show ?thesis by simp
qed

text \<open>
  Claim C1. For two Object values the differ visits the union of the keys (the left
  keys first, then the keys of the right object only) and emits \<open>Added\<close> for a key of the
  right object only, \<open>Removed\<close> for a key of the left object only, and recurses on a key
  of both. The example of the claim holds, but \<^verbatim>\<open>key in b\<close> is also true for a key that
  \<open>b\<close> inherits from \<^verbatim>\<open>Object.prototype\<close>: the member \<^verbatim>\<open>toString\<close> of the left object, absent
  from the right one, is reported as \<open>Changed\<close> into the inherited function instead of
  \<open>Removed\<close>.
\<close>

theorem jsonDiff_inherited_key:
  "jsonDiff (JObj 0 [(''toString'', JNum (1::int))]) (JObj 1 []) ''$''
     = [Changed ''$.toString'' (Tree (JNum 1)) (Builtin ''toString'')]"
  by (simp add: jsonDiff_def compare.simps Set_of_def Object_keys_def
        Object_prototype_names_def inherited_def)

lemma jsonDiff_example_removed_added:
  "jsonDiff (JObj 0 [(''a'', JNum (1::int))]) (JObj 1 [(''b'', JNum 1)]) ''$''
     = [Removed ''$.a'' (Tree (JNum 1)), Added ''$.b'' (Tree (JNum 1))]"
  by (simp add: jsonDiff_def compare.simps Set_of_def Object_keys_def
        Object_prototype_names_def)


text \<open>
  For two distinct objects none of whose keys is a property name of \<^verbatim>\<open>Object.prototype\<close>
  the differ does what the claim says: it visits the keys of the left object in their
  order, then the keys of the right object only, in their order, and emits \<open>Added\<close>,
  \<open>Removed\<close> or the entries of the recursion.
\<close>

lemma fold_Set_of_distinct:
  "distinct xs \<Longrightarrow>
   fold (\<lambda>x s. if x \<in> set s then s else s @ [x]) xs acc = acc @ filter (\<lambda>x. x \<notin> set acc) xs"
proof (induction xs arbitrary: acc)
  case Nil
  show ?case by simp
next
  case (Cons x xs)
  show ?case
  proof (cases "x \<in> set acc")
    case True
    with Cons show ?thesis by simp
  next
    case False
    have "filter (\<lambda>y. y \<notin> set (acc @ [x])) xs = filter (\<lambda>y. y \<notin> set acc) xs"
      using Cons.prems by (auto intro: filter_cong)
    with Cons False show ?thesis by simp
  qed
qed

lemma Set_of_append_distinct:
  "distinct xs \<Longrightarrow> distinct ys \<Longrightarrow> Set_of (xs @ ys) = xs @ filter (\<lambda>y. y \<notin> set xs) ys"
  by (simp add: Set_of_def fold_Set_of_distinct)

lemma compare_keys_concat:
  "compare_keys a b ks p =
     concat (map (\<lambda>key.
        if \<not> has_in key a then [Added (p @ ''.'' @ key) (get b key)]
        else if \<not> has_in key b then [Removed (p @ ''.'' @ key) (get a key)]
        else compare (get a key) (get b key) (p @ ''.'' @ key)) ks)"
  by (induction ks) (simp_all add: Let_def)

lemma own_key_lookup:
  "key \<in> set (map fst ps) \<Longrightarrow> get (Tree (JObj r ps)) key = Tree (the (map_of ps key))"
  by (cases "map_of ps key") (auto simp: map_of_eq_None_iff)

lemma compare_objects_own_keys:
  assumes id: "r \<noteq> r'"
    and da: "distinct (map fst ps)" and db: "distinct (map fst qs)"
    and na: "set (map fst ps) \<inter> set Object_prototype_names = {}"
    and nb: "set (map fst qs) \<inter> set Object_prototype_names = {}"
  shows "compare (Tree (JObj r ps)) (Tree (JObj r' qs)) p =
     concat (map (\<lambda>key.
        if key \<notin> set (map fst ps) then [Added (p @ ''.'' @ key) (Tree (the (map_of qs key)))]
        else if key \<notin> set (map fst qs) then [Removed (p @ ''.'' @ key) (Tree (the (map_of ps key)))]
        else compare (Tree (the (map_of ps key))) (Tree (the (map_of qs key))) (p @ ''.'' @ key))
      (map fst ps @ filter (\<lambda>k. k \<notin> set (map fst ps)) (map fst qs)))"
proof -
  let ?ks = "map fst ps @ filter (\<lambda>k. k \<notin> set (map fst ps)) (map fst qs)"
  have ks: "Set_of (Object_keys ps @ Object_keys qs) = ?ks"
    using da db by (simp add: Object_keys_def Set_of_append_distinct)
  have ina: "has_in key (Tree (JObj r ps)) = (key \<in> set (map fst ps))" if "key \<in> set ?ks" for key
    using that na nb by (auto simp: Object_keys_def)
  have inb: "has_in key (Tree (JObj r' qs)) = (key \<in> set (map fst qs))" if "key \<in> set ?ks" for key
    using that na nb by (auto simp: Object_keys_def)
  have "compare (Tree (JObj r ps)) (Tree (JObj r' qs)) p
          = compare_keys (Tree (JObj r ps)) (Tree (JObj r' qs)) ?ks p"
    using id by (subst compare.simps) (simp add: ks del: set_map)
  also have "\<dots> = concat (map (\<lambda>key.
        if key \<notin> set (map fst ps) then [Added (p @ ''.'' @ key) (Tree (the (map_of qs key)))]
        else if key \<notin> set (map fst qs) then [Removed (p @ ''.'' @ key) (Tree (the (map_of ps key)))]
        else compare (Tree (the (map_of ps key))) (Tree (the (map_of qs key))) (p @ ''.'' @ key)) ?ks)"
    unfolding compare_keys_concat
    by (rule arg_cong [where f = concat], rule map_cong [OF refl])
       (auto simp: ina inb own_key_lookup simp del: has_in.simps get.simps)
  finally show ?thesis .
qed


section \<open>Results about the XML transcoder\<close>

lemma replace_all_append: "replace_all c r (s @ t) = replace_all c r s @ replace_all c r t"
  by (simp add: replace_all_def)

lemma replace_all_concat: "replace_all c r (concat ss) = concat (map (replace_all c r) ss)"
  by (induction ss) (simp_all add: replace_all_append, simp add: replace_all_def)

lemma escape_xml_entities:
  "replace_all CHR ''>'' ''&gt;'' (replace_all CHR ''<'' ''&lt;'' (replace_all CHR ''&'' ''&amp;'' s))
     = concat (map xml_entity s)"
proof (induction s)
  case Nil
  show ?case by (simp add: replace_all_def)
next
  case (Cons c s)
  have "replace_all CHR ''>'' ''&gt;'' (replace_all CHR ''<'' ''&lt;'' (replace_all CHR ''&'' ''&amp;'' [c]))
          = xml_entity c"
    by (simp add: replace_all_def xml_entity_def)
  with Cons show ?case
    using replace_all_append [of _ _ "[c]" s]
    by (simp add: replace_all_append)
qed

lemma convert_scalar:
  "\<not> is_List v \<Longrightarrow> \<not> is_Object v \<Longrightarrow>
   convert num v tag level =
     repeat ''  '' level @ ''<'' @ tag @ ''>''
     @ (if v = JNull then '''' else concat (map xml_entity (String num v)))
     @ ''</'' @ tag @ ''>\<newline>''"
  by (cases v) (simp_all add: escape_xml_entities Let_def)

text \<open>
  Claim C2. Every scalar is emitted as \<open><tag>value</tag>\<close> with \<open>&\<close>, \<open><\<close> and \<open>>\<close>
  escaped in the text content, and null with empty content, also when the scalar is the
  root value. Scalars below the root are emitted so (\<open>convert_scalar\<close>); the root
  branch of \<^verbatim>\<open>jsonToXml\<close> prints the value as it is: the string \<open>a<b\<close> keeps its \<open><\<close>, and
  null is printed as the text \<open>null\<close>.
\<close>

theorem jsonToXml_root_scalar_raw:
  \<open>jsonToXml num (JStr ''a<b'') ''root''
     = ''<?xml version="1.0" encoding="UTF-8"?>\<newline><root>a<b</root>\<newline>'' \<and>
   jsonToXml num JNull ''root''
     = ''<?xml version="1.0" encoding="UTF-8"?>\<newline><root>null</root>\<newline>''\<close>
  by (simp add: jsonToXml_def)

lemma jsonToXml_example_list:
  \<open>jsonToXml (\<lambda>n::nat. nat_to_string n) (JArr 0 [JNum 1, JNum 2]) ''root''
  = ''<?xml version="1.0" encoding="UTF-8"?>\<newline><root>\<newline>  <item>1</item>\<newline>  <item>2</item>\<newline></root>\<newline>''\<close>
  by (simp add: jsonToXml_def repeat_def replace_all_def nat_to_string.simps digit_char_def)


section \<open>Results about the parser diagnostics\<close>

lemma split_newline_nonempty: "split_newline s \<noteq> []"
  by (induction s) (auto split: list.splits)

lemma length_split_newline: "length (split_newline s) = Suc (count_list s CHR ''\<newline>'')"
  using split_newline_nonempty by (induction s) (auto split: list.splits)

lemma split_newline_snoc:
  "split_newline (s @ [c]) =
     (if c = CHR ''\<newline>'' then split_newline s @ [[]]
      else butlast (split_newline s) @ [last (split_newline s) @ [c]])"
proof (induction s)
  case Nil
  show ?case by simp
next
  case (Cons d s)
  obtain l ls where sp: "split_newline s = l # ls"
    using split_newline_nonempty [of s] by (cases "split_newline s") auto
  show ?case using Cons sp by (auto split: list.splits)
qed

lemma last_split_newline:
  "last (split_newline s) = rev (takeWhile (\<lambda>c. c \<noteq> CHR ''\<newline>'') (rev s))"
proof (induction s rule: rev_induct)
  case Nil
  show ?case by simp
next
  case (snoc c s)
  then show ?case by (simp add: split_newline_snoc)
qed

text \<open>
  What the code returns when parsing fails: a failure result whose line and column are
  computed from the number extracted from the message, when there is one. The line is
  one more than the number of newlines in the prefix of the input of that length, the
  column one more than the number of characters after the last newline of that prefix.
\<close>

lemma parseJSON_on_failure:
  "JSON_parse text = Inl msg \<Longrightarrow>
   parseJSON JSON_parse text =
     \<lparr>res_success = False, res_data = None,
      res_error = Some \<lparr>err_message = msg,
        err_line = map_option (\<lambda>pos. Suc (count_list (take pos text) CHR ''\<newline>''))
                 (extracted_position msg),
        err_col = map_option (\<lambda>pos. length (takeWhile (\<lambda>c. c \<noteq> CHR ''\<newline>'') (rev (take pos text))) + 1)
                 (extracted_position msg)\<rparr>\<rparr>"
  by (cases "match_position msg")
     (simp_all add: parseJSON_def extracted_position_def Let_def substring_def
        length_split_newline last_split_newline)

lemma parseJSON_example_reported_offset:
  "parseJSON parse_example_engine parse_example_text =
     \<lparr>res_success = False, res_data = None,
      res_error = Some \<lparr>err_message = ''Unexpected token } in JSON at position 12'',
                    err_line = Some 3, err_col = Some 1\<rparr>\<rparr>"
proof -
  have fail: "parse_example_engine parse_example_text
                = Inl ''Unexpected token } in JSON at position 12''"
    by (simp add: parse_example_engine_def)
  have off: "extracted_position ''Unexpected token } in JSON at position 12'' = Some 12"
    by (simp add: extracted_position_def match_position_here_def ascii_lower_def is_space_def
          is_digit_def parseInt_def digit_value_def Let_def)
  show ?thesis
    using parseJSON_on_failure [of parse_example_engine parse_example_text, OF fail]
    by (simp add: off parse_example_text_def)
qed

text \<open>
  Claim C3. When parsing fails with a determinable failure offset, the error has the
  line and column of that offset; when the offset cannot be determined, line and column
  are unknown, not a number; the failure is returned, not thrown. The code takes the
  offset from the text of the message, and an engine that quotes the input in its
  message makes it find one that is not there: for the input \<open>position 5\<close>, which fails
  at its first character and whose message gives no offset, the code reports line 1,
  column 6 instead of unknown.
\<close>

theorem parseJSON_position_from_quoted_input:
  \<open>parseJSON quoting_engine ''position 5'' =
     \<lparr>res_success = False, res_data = None,
      res_error = Some \<lparr>err_message = ''Unexpected token '' @ [CHR 0x27] @ ''p'' @ [CHR 0x27]
                                        @ '', "position 5" is not valid JSON'',
                    err_line = Some 1, err_col = Some 6\<rparr>\<rparr>\<close>
  by (simp add: parseJSON_def quoting_engine_def match_position_here_def ascii_lower_def
        is_space_def is_digit_def parseInt_def digit_value_def Let_def substring_def)


section \<open>Results about the tree view\<close>

lemma escape_html_entities: "escape_html s = concat (map html_entity s)"
proof (induction s)
  case Nil
  show ?case by (simp add: escape_html_def replace_all_def)
next
  case (Cons c s)
  have "escape_html [c] = html_entity c"
    by (simp add: escape_html_def replace_all_def html_entity_def)
  moreover have "escape_html (c # s) = escape_html [c] @ escape_html s"
    using replace_all_append [of _ _ "[c]" s]
    by (simp add: escape_html_def replace_all_append)
  ultimately show ?case using Cons by simp
qed

text \<open>
  Claim C10. Inside a String leaf the renderer replaces each of \<open>&\<close>, \<open><\<close>, \<open>>\<close> and the
  double quote by its entity. An Object key is interpolated as it is: for the object
  with the single key \<open><\<close>, the output contains the key span with that \<open><\<close> unescaped
  (in the text of the span, and in its attributes too).
\<close>

theorem buildTreeHTML_string_escaped_key_raw:
  \<open>fst (buildTreeHTML num rnd (JStr s) path isLast n)
     = ''<span class="tree-string" data-path="'' @ path @ ''">"''
       @ concat (map html_entity s) @ ''"</span>'' \<and>
   sublist (''<span class="tree-key" data-path="$.<" onclick="copyPath('' @ [CHR 0x27] @ ''$.<''
              @ [CHR 0x27] @ '')" title="Click to copy path">"<"</span>'')
     (fst (buildTreeHTML num rnd (JObj 0 [(''<'', JNull)]) ''$'' True 0))\<close>
proof
  show \<open>fst (buildTreeHTML num rnd (JStr s) path isLast n)
     = ''<span class="tree-string" data-path="'' @ path @ ''">"''
       @ concat (map html_entity s) @ ''"</span>''\<close>
    by (simp add: buildTreeHTML.simps escape_html_entities)
next
  show \<open>sublist (''<span class="tree-key" data-path="$.<" onclick="copyPath('' @ [CHR 0x27] @ ''$.<''
              @ [CHR 0x27] @ '')" title="Click to copy path">"<"</span>'')
     (fst (buildTreeHTML num rnd (JObj 0 [(''<'', JNull)]) ''$'' True 0))\<close>
    unfolding sublist_def
    apply (rule exI [of _ \<open>''<span class="tree-toggle" onclick="toggleTreeNode('' @ [CHR 0x27]
             @ ''node-'' @ rnd 0 @ [CHR 0x27] @ '')" id="toggle-'' @ ''node-'' @ rnd 0 @ ''">''
             @ down_triangle @ ''</span>''
             @ ''<span class="tree-bracket">{</span>''
             @ ''<span class="tree-count">1 keys</span>''
             @ ''<div class="tree-node" id="'' @ ''node-'' @ rnd 0 @ ''">''
             @ ''<div class="tree-line">''\<close>])
    apply (rule exI [of _ \<open>''<span class="tree-colon">:</span> ''
             @ ''<span class="tree-null" data-path="$.<">null</span>''
             @ ''</div>'' @ ''</div><span class="tree-bracket">}</span>''\<close>])
    apply (simp add: buildTreeHTML.simps tree_lines.simps nat_to_string.simps digit_char_def)
    done
qed


section \<open>Results about the interface description\<close>














text \<open>
  Two inputs on which the output has not one block per generated name: the name of the
  root interface is not registered, so a member that generates the same name gets a
  second block of that name; and for a list whose first element is not an object the
  interfaces generated for later elements are not emitted.
\<close>

lemma jsonToTypeScript_root_name_twice:
  "jsonToTypeScript ascii_upper (JObj 0 [(''root'', JObj 1 [(''x'', JNum (1::int))])]) ''Root''
     = ''interface Root {\<newline>  root: Root;\<newline>}\<newline>\<newline>interface Root {\<newline>  x: number;\<newline>}''"
  by (simp add: jsonToTypeScript_def generateInterface.simps
        interface_fields.simps getType.simps Let_def capitalize_def ascii_upper_def
        is_alnum_def is_digit_def)

lemma jsonToTypeScript_list_drops_interfaces:
  "jsonToTypeScript ascii_upper (JArr 0 [JNum (1::int), JObj 1 [(''x'', JNum 1)]]) ''Root''
     = ''type Root = (number | Root)[];''"
  by (simp add: jsonToTypeScript_def generateInterface.simps getTypes.simps
        interface_fields.simps getType.simps Let_def capitalize_def ascii_upper_def
        is_alnum_def is_digit_def elem_at_def strip_trailing_s_def Set_of_def)

lemma jsonToTypeScript_example_5:
  "jsonToTypeScript ascii_upper
     (JObj 0 [(''id'', JNum (1::int)), (''tags'', JArr 1 [JStr ''a'', JStr ''b''])]) ''Root''
     = ''interface Root {\<newline>  id: number;\<newline>  tags: string[];\<newline>}''"
  by (simp add: jsonToTypeScript_def generateInterface.simps getTypes.simps
        interface_fields.simps getType.simps Let_def capitalize_def ascii_upper_def
        is_alnum_def is_digit_def elem_at_def strip_trailing_s_def Set_of_def)

lemma entries_deep_equal:
  "deep_equal obj w \<Longrightarrow>
   list_all2 (\<lambda>kv kw. fst kv = fst kw \<and> deep_equal (snd kv) (snd kw))
     (Object_entries obj) (Object_entries w)"
proof (cases obj)
  case (JArr r xs)
  assume "deep_equal obj w"
  with JArr obtain r' ys where w: "w = JArr r' ys" and eq: "list_all2 deep_equal xs ys"
    by (cases w) simp_all
  have len: "length xs = length ys" using eq by (rule list_all2_lengthD)
  show ?thesis
    unfolding JArr w using eq len
    by (auto simp: indexed_def list_all2_conv_all_nth)
next
  case (JObj r ps)
  assume "deep_equal obj w"
  with JObj show ?thesis by (cases w) simp_all
qed (cases w; simp)+

lemma ts_deep_equal:
  fixes v obj :: "'n json" and vs :: "'n json list" and es :: "(string \<times> 'n json) list"
  shows "\<forall>w. deep_equal v w \<longrightarrow> getType up v name st = getType up w name st"
  and "\<forall>ws. list_all2 deep_equal vs ws \<longrightarrow> getTypes up vs name st = getTypes up ws name st"
  and "\<forall>w. deep_equal obj w \<longrightarrow> generateInterface up obj name st = generateInterface up w name st"
  and "\<forall>fs. list_all2 (\<lambda>kv kw. fst kv = fst kw \<and> deep_equal (snd kv) (snd kw)) es fs \<longrightarrow>
         interface_fields up es code st = interface_fields up fs code st"
proof (induction up v name st and up vs name st and up obj name st and up es code st
       rule: getType_getTypes_generateInterface_interface_fields.induct)
  case (1 up name st)
  show ?case
  proof (intro allI impI)
    fix w :: "'n json" assume "deep_equal JNull w"
    then have "w = JNull" by (cases w) simp_all
    then show "getType up (JNull :: 'n json) name st = getType up w name st" by simp
  qed
next
  case (2 up r xs name st)
  show ?case
  proof (intro allI impI)
    fix w assume "deep_equal (JArr r xs) w"
    then obtain r' ys where w: "w = JArr r' ys" and eq: "list_all2 deep_equal xs ys"
      by (cases w) simp_all
    have len: "length xs = length ys" using eq by (rule list_all2_lengthD)
    show "getType up (JArr r xs) name st = getType up w name st"
    proof (cases "length xs = 0")
      case True
      then show ?thesis using len by (simp add: w getType.simps)
    next
      case False
      from 2 [OF False] eq
      have "getTypes up xs (strip_trailing_s name) st = getTypes up ys (strip_trailing_s name) st"
        by blast
      then show ?thesis using False len by (simp add: w getType.simps)
    qed
  qed
next
  case (3 up r ps name st)
  show ?case
  proof (intro allI impI)
    fix w assume eq: "deep_equal (JObj r ps) w"
    then obtain r' qs where w: "w = JObj r' qs" by (cases w) simp_all
    show "getType up (JObj r ps) name st = getType up w name st"
    proof (cases "capitalize up name \<in> dom (seen st)")
      case True
      then show ?thesis by (simp add: w getType.simps Let_def)
    next
      case False
      from 3 [OF refl False] eq
      have "generateInterface up (JObj r ps) (capitalize up name)
              (st\<lparr>seen := (seen st)(capitalize up name \<mapsto> True)\<rparr>)
            = generateInterface up w (capitalize up name)
              (st\<lparr>seen := (seen st)(capitalize up name \<mapsto> True)\<rparr>)"
        by blast
      then show ?thesis using False by (simp add: w getType.simps Let_def)
    qed
  qed
next
  case (4 up b name st)
  show ?case
  proof (intro allI impI)
    fix w :: "'n json" assume "deep_equal (JBool b) w"
    then have "w = JBool b" by (cases w) simp_all
    then show "getType up (JBool b :: 'n json) name st = getType up w name st" by simp
  qed
next
  case (5 up x name st)
  show ?case
  proof (intro allI impI)
    fix w :: "'n json" assume "deep_equal (JNum x) w"
    then have "w = JNum x" by (cases w) simp_all
    then show "getType up (JNum x) name st = getType up w name st" by simp
  qed
next
  case (6 up s name st)
  show ?case
  proof (intro allI impI)
    fix w :: "'n json" assume "deep_equal (JStr s) w"
    then have "w = JStr s" by (cases w) simp_all
    then show "getType up (JStr s :: 'n json) name st = getType up w name st" by simp
  qed
next
  case (7 up name st)
  show ?case by simp
next
  case (8 up v vs name st)
  show ?case
  proof (intro allI impI)
    fix ws assume "list_all2 deep_equal (v # vs) ws"
    then obtain w ws' where ws: "ws = w # ws'" and h: "deep_equal v w"
      and t: "list_all2 deep_equal vs ws'"
      by (cases ws) auto
    obtain ty st1 where a: "getType up v name st = (ty, st1)" by force
    have a': "getType up w name st = (ty, st1)" using 8(1) h a by simp
    have "getTypes up vs name st1 = getTypes up ws' name st1"
      using 8(2) [OF a [symmetric] refl] t by blast
    then show "getTypes up (v # vs) name st = getTypes up ws name st"
      by (simp add: ws getTypes.simps a a')
  qed
next
  case (9 up obj name st)
  show ?case
  proof (intro allI impI)
    fix w assume "deep_equal obj w"
    then have "list_all2 (\<lambda>kv kw. fst kv = fst kw \<and> deep_equal (snd kv) (snd kw))
                 (Object_entries obj) (Object_entries w)"
      by (rule entries_deep_equal)
    with 9 [OF refl]
    have "interface_fields up (Object_entries obj) (''interface '' @ name @ '' {\<newline>'') st
          = interface_fields up (Object_entries w) (''interface '' @ name @ '' {\<newline>'') st"
      by blast
    then show "generateInterface up obj name st = generateInterface up w name st"
      by (simp add: generateInterface.simps)
  qed
next
  case (10 up code st)
  show ?case by simp
next
  case (11 up key v es code st)
  show ?case
  proof (intro allI impI)
    fix fs
    assume "list_all2 (\<lambda>kv kw. fst kv = fst kw \<and> deep_equal (snd kv) (snd kw)) ((key, v) # es) fs"
    then obtain w fs' where fs: "fs = (key, w) # fs'" and h: "deep_equal v w"
      and t: "list_all2 (\<lambda>kv kw. fst kv = fst kw \<and> deep_equal (snd kv) (snd kw)) es fs'"
      by (cases fs) auto
    obtain ty st1 where a: "getType up v key st = (ty, st1)" by force
    have a': "getType up w key st = (ty, st1)" using 11(1) [OF refl] h a by simp
    have "interface_fields up es c st1 = interface_fields up fs' c st1"
      if "c = code @ ''  '' @ (if is_identifier key then key else [CHR 0x22] @ key @ [CHR 0x22])
                @ '': '' @ ty @ '';\<newline>''" for c
      using 11(2) [OF refl a [symmetric] refl] t that by blast
    then show "interface_fields up ((key, v) # es) code st = interface_fields up fs code st"
      by (simp add: fs interface_fields.simps a a' Let_def)
  qed
qed

text \<open>
  Claim C9. For a non-empty top-level List whose first element is an Object, the output
  depends on that first element only: two such lists with deeply equal first elements
  give the same output, whatever their other elements are.
\<close>

theorem jsonToTypeScript_first_element_only:
  "is_Object x \<Longrightarrow> deep_equal x y \<Longrightarrow>
   jsonToTypeScript up (JArr r (x # xs)) name = jsonToTypeScript up (JArr r' (y # ys)) name"
proof -
  assume obj: "is_Object x" and eq: "deep_equal x y"
  then have y: "is_Object y" by (cases x; cases y) simp_all
  have gen: "generateInterface up x name st = generateInterface up y name st" for st
    using ts_deep_equal(3) eq by blast
  from obj obtain rx ps where x: "x = JObj rx ps" by (cases x) simp_all
  from y obtain ry qs where y': "y = JObj ry qs" by (cases y) simp_all
  show ?thesis
    using gen by (simp add: jsonToTypeScript_def elem_at_def x y')
qed

theorem jsonToTypeScript_first_element_only_witness:
  "is_Object (JObj 2 [(''x'', JNum (7::int))]) \<and>
   deep_equal (JObj 2 [(''x'', JNum (7::int))]) (JObj 5 [(''x'', JNum 7)]) \<and>
   jsonToTypeScript ascii_upper (JArr 0 [JObj 2 [(''x'', JNum (7::int))], JNull]) ''Root''
     = jsonToTypeScript ascii_upper
         (JArr 4 [JObj 5 [(''x'', JNum (7::int))], JStr ''s'', JObj 6 [(''y'', JNull)]]) ''Root''"
proof -
  have o: "is_Object (JObj 2 [(''x'', JNum (7::int))])" by simp
  have d: "deep_equal (JObj 2 [(''x'', JNum (7::int))]) (JObj 5 [(''x'', JNum 7)])" by simp
  from jsonToTypeScript_first_element_only
         [OF o d, of ascii_upper 0 "[JNull]" "''Root''" 4 "[JStr ''s'', JObj 6 [(''y'', JNull)]]"] o d
  show ?thesis by blast
qed


section \<open>Results about the token classifier\<close>







lemma takeWhile_digit_chars: "set (takeWhile is_digit s) \<subseteq> set ''0123456789''"
proof
  fix c assume "c \<in> set (takeWhile is_digit s)"
  then have "is_digit c" by (rule set_takeWhileD [THEN conjunct2])
  then show "c \<in> set ''0123456789''" by (simp add: is_digit_def)
qed

















end
